theory Spec2Isabelle
  imports Main
begin

section \<open>Element values (common.h)\<close>

text \<open>
  \<^verbatim>\<open>union elem { int i; unsigned int u; bool b; float f; void *p; }\<close> has no tag. The
  constructor records which member was written, under the name of the macro of common.h
  that writes it. No operation of the list reads a member, and no property below reads
  a member other than the one written. The float member is left out (no floating point
  here). Storage zeroed by \<^verbatim>\<open>calloc\<close> reads as 0 through every member; it is
  written \<open>int_elem 0\<close>.
\<close>

datatype elem =
    int_elem int
  | unsigned_int_elem nat
  | bool_elem bool
  | ptr_elem "nat option"

section \<open>Machine integers\<close>

text \<open>
  \<^verbatim>\<open>int\<close> is 32 bits wide and \<^verbatim>\<open>size_t\<close> 64 bits (gcc on an LP64 target, the
  compiler the Makefile names). A \<^verbatim>\<open>size_t\<close> value is a \<open>nat\<close> below \<open>2 ^ 64\<close>,
  an \<^verbatim>\<open>int\<close> value an \<open>int\<close> from \<open>- (2 ^ 31)\<close> up to \<open>2 ^ 31 - 1\<close>.
  \<open>to_size_t\<close> is the conversion to \<^verbatim>\<open>size_t\<close> (modulo \<open>2 ^ 64\<close>), \<open>to_int\<close> the
  conversion of an out-of-range value to \<^verbatim>\<open>int\<close> (modulo \<open>2 ^ 32\<close>, as gcc defines it).
\<close>

definition to_size_t :: "int \<Rightarrow> nat" where
  "to_size_t x = nat (x mod 2 ^ 64)"

definition to_int :: "int \<Rightarrow> int" where
  "to_int x = (x + 2 ^ 31) mod 2 ^ 32 - 2 ^ 31"

text \<open>
  \<^verbatim>\<open>list_inner_adjust_index(const int index, const size_t upper_bound)\<close>. The sum
  \<^verbatim>\<open>index + upper_bound\<close> is computed in \<^verbatim>\<open>size_t\<close> and converted back to \<^verbatim>\<open>int\<close>.
\<close>

definition list_inner_adjust_index :: "int \<Rightarrow> nat \<Rightarrow> int" where
  "list_inner_adjust_index index upper_bound =
     (let index_adjusted =
            (if index < 0
             then to_int (int ((to_size_t index + upper_bound) mod 2 ^ 64))
             else index)
      in if index_adjusted < 0 then - 1
         else if to_size_t index_adjusted > upper_bound then - 1
         else index_adjusted)"

section \<open>Links, the heap and the list\<close>

type_synonym addr = nat

text \<open>A \<^verbatim>\<open>link_t *\<close>: \<open>None\<close> is \<^verbatim>\<open>NULL\<close>.\<close>

type_synonym ptr = "addr option"

record link =
  link_value :: elem
  link_next :: ptr

text \<open>
  What the C standard leaves undefined is a fault of the model: reading or writing
  through \<^verbatim>\<open>NULL\<close>, through a pointer to a freed link, and overflow of \<^verbatim>\<open>int\<close>
  arithmetic.
\<close>

datatype fault = Null_dereference | Invalid_access | Signed_overflow

text \<open>
  The state is the heap of links together with the fields of the one \<^verbatim>\<open>struct list\<close>
  the operations work on. \<open>allocs\<close> holds the answers of \<^verbatim>\<open>calloc\<close> to the coming
  requests for a link or for an iterator, in order: an address, or \<^verbatim>\<open>NULL\<close>. Any
  allocator is some such sequence, also one that hands a freed address out again.
\<close>

record state =
  heap :: "addr \<Rightarrow> link option"
  allocs :: "ptr list"
  list_first :: ptr
  list_last :: ptr
  list_size :: nat
  list_fun :: "elem \<Rightarrow> elem \<Rightarrow> bool"

text \<open>
  The fields of \<^verbatim>\<open>struct iter\<close>; its \<^verbatim>\<open>list\<close> field is the list of the state.
\<close>

record iter =
  iter_current :: ptr

definition deref :: "state \<Rightarrow> ptr \<Rightarrow> fault + link" where
  "deref s p =
     (case p of
        None \<Rightarrow> Inl Null_dereference
      | Some a \<Rightarrow> (case heap s a of None \<Rightarrow> Inl Invalid_access | Some l \<Rightarrow> Inr l))"

text \<open>The assignment \<^verbatim>\<open>p->next = q\<close>.\<close>

definition store_next :: "state \<Rightarrow> ptr \<Rightarrow> ptr \<Rightarrow> fault + state" where
  "store_next s p q =
     (case p of
        None \<Rightarrow> Inl Null_dereference
      | Some a \<Rightarrow>
          (case heap s a of
             None \<Rightarrow> Inl Invalid_access
           | Some l \<Rightarrow> Inr (s\<lparr>heap := (heap s)(a \<mapsto> l\<lparr>link_next := q\<rparr>)\<rparr>)))"

text \<open>\<^verbatim>\<open>free(p)\<close> for a link; \<^verbatim>\<open>free(NULL)\<close> does nothing.\<close>

definition free_link :: "state \<Rightarrow> ptr \<Rightarrow> state" where
  "free_link s p = (case p of None \<Rightarrow> s | Some a \<Rightarrow> s\<lparr>heap := (heap s)(a := None)\<rparr>)"

text \<open>
  \<^verbatim>\<open>calloc(1, sizeof(link_t))\<close>: the next answer of the allocator. An answer that
  names an address in use stands for \<^verbatim>\<open>NULL\<close>, and so does an exhausted sequence.
\<close>

definition calloc_link :: "state \<Rightarrow> ptr \<times> state" where
  "calloc_link s =
     (case allocs s of
        [] \<Rightarrow> (None, s)
      | r # rs \<Rightarrow>
          (case r of
             None \<Rightarrow> (None, s\<lparr>allocs := rs\<rparr>)
           | Some a \<Rightarrow>
               if heap s a = None
               then (Some a,
                     s\<lparr>allocs := rs,
                       heap := (heap s)(a \<mapsto> \<lparr>link_value = int_elem 0, link_next = None\<rparr>)\<rparr>)
               else (None, s\<lparr>allocs := rs\<rparr>)))"

definition link_new :: "state \<Rightarrow> elem \<Rightarrow> ptr \<Rightarrow> ptr \<times> state" where
  "link_new s v nxt =
     (case calloc_link s of
        (None, s') \<Rightarrow> (None, s')
      | (Some a, s') \<Rightarrow>
          (Some a, s'\<lparr>heap := (heap s')(a \<mapsto> \<lparr>link_value = v, link_next = nxt\<rparr>)\<rparr>))"

section \<open>The iterator\<close>

text \<open>
  \<^verbatim>\<open>calloc(1, sizeof(list_iterator_t))\<close>: the next answer of the allocator, read as for
  a link. The cell of an iterator holds no link, so the heap of links is as before.
\<close>

definition calloc_iterator :: "state \<Rightarrow> ptr \<times> state" where
  "calloc_iterator s =
     (case allocs s of
        [] \<Rightarrow> (None, s)
      | r # rs \<Rightarrow>
          (case r of
             None \<Rightarrow> (None, s\<lparr>allocs := rs\<rparr>)
           | Some a \<Rightarrow>
               if heap s a = None then (Some a, s\<lparr>allocs := rs\<rparr>)
               else (None, s\<lparr>allocs := rs\<rparr>)))"

text \<open>
  \<^verbatim>\<open>list_iterator\<close> does not check the result of \<^verbatim>\<open>calloc\<close>: the assignment
  \<^verbatim>\<open>result->current = list->first\<close> goes through \<^verbatim>\<open>NULL\<close> when the allocation
  failed. Otherwise the iterator exists, with the fields the two assignments give it.
  The state keeps no record of the cell itself. It thereby admits, beyond every real
  allocator, one that answers a later request for a link with the cell of an iterator
  still alive; no evaluation below uses such an answer.
\<close>

definition list_iterator :: "state \<Rightarrow> fault + (iter \<times> state)" where
  "list_iterator s =
     (case calloc_iterator s of
        (result, s1) \<Rightarrow>
          if result = None then Inl Null_dereference
          else Inr (\<lparr>iter_current = list_first s1\<rparr>, s1))"

text \<open>\<^verbatim>\<open>iterator_destroy\<close> is \<^verbatim>\<open>free(iter)\<close>: no link and no field of the list changes.\<close>

definition iterator_destroy :: "state \<Rightarrow> iter \<Rightarrow> state" where
  "iterator_destroy s it = s"

text \<open>
  \<^verbatim>\<open>iterator_insert\<close> reads \<^verbatim>\<open>iter->current->next\<close> for the call of \<^verbatim>\<open>link_new\<close>,
  and returns without a change when \<^verbatim>\<open>link_new\<close> gives \<^verbatim>\<open>NULL\<close>. It never assigns
  \<^verbatim>\<open>iter->current\<close>: the iterator it returns is the one it was given.
\<close>

definition iterator_insert :: "state \<Rightarrow> iter \<Rightarrow> elem \<Rightarrow> fault + (iter \<times> state)" where
  "iterator_insert s it element =
     (case deref s (iter_current it) of
        Inl e \<Rightarrow> Inl e
      | Inr cur \<Rightarrow>
          (case link_new s element (link_next cur) of
             (link_to_insert, s1) \<Rightarrow>
               if link_to_insert = None then Inr (it, s1)
               else (case store_next s1 (iter_current it) link_to_insert of
                       Inl e \<Rightarrow> Inl e
                     | Inr s2 \<Rightarrow> Inr (it, s2))))"

definition iterator_has_next :: "state \<Rightarrow> iter \<Rightarrow> fault + bool" where
  "iterator_has_next s it =
     (case deref s (iter_current it) of
        Inl e \<Rightarrow> Inl e
      | Inr cur \<Rightarrow> Inr (link_next cur \<noteq> None))"

definition iterator_next :: "state \<Rightarrow> iter \<Rightarrow> fault + (elem \<times> iter)" where
  "iterator_next s it =
     (case deref s (iter_current it) of
        Inl e \<Rightarrow> Inl e
      | Inr cur \<Rightarrow>
          (let it' = it\<lparr>iter_current := link_next cur\<rparr>
           in case deref s (iter_current it') of
                Inl e \<Rightarrow> Inl e
              | Inr l \<Rightarrow> Inr (link_value l, it')))"

definition iterator_remove :: "state \<Rightarrow> iter \<Rightarrow> fault + (elem \<times> iter \<times> state)" where
  "iterator_remove s it =
     (case deref s (iter_current it) of
        Inl e \<Rightarrow> Inl e
      | Inr cur \<Rightarrow>
          (let link_to_remove = link_next cur
           in case deref s link_to_remove of
                Inl e \<Rightarrow> Inl e
              | Inr rm \<Rightarrow>
                  (let value_removed = link_value rm
                   in case store_next s (iter_current it) (link_next rm) of
                        Inl e \<Rightarrow> Inl e
                      | Inr s1 \<Rightarrow> Inr (value_removed, it, free_link s1 link_to_remove))))"

definition iterator_reset :: "state \<Rightarrow> iter \<Rightarrow> iter" where
  "iterator_reset s it = it\<lparr>iter_current := list_first s\<rparr>"

definition iterator_current :: "state \<Rightarrow> iter \<Rightarrow> fault + elem" where
  "iterator_current s it =
     (case iterator_has_next s it of
        Inl e \<Rightarrow> Inl e
      | Inr b \<Rightarrow>
          if \<not> b then Inr (int_elem (- 1))
          else (case deref s (iter_current it) of
                  Inl e \<Rightarrow> Inl e
                | Inr cur \<Rightarrow>
                    (case deref s (link_next cur) of
                       Inl e \<Rightarrow> Inl e
                     | Inr l \<Rightarrow> Inr (link_value l))))"

section \<open>The list\<close>

text \<open>
  \<^verbatim>\<open>linked_list_create\<close> in a program that holds no link yet: the sentinel is the
  first link the allocator gives, and neither allocation is checked.
\<close>

definition linked_list_create :: "(elem \<Rightarrow> elem \<Rightarrow> bool) \<Rightarrow> ptr list \<Rightarrow> state" where
  "linked_list_create f al =
     (case calloc_link \<lparr>heap = \<lambda>a. None, allocs = al, list_first = None, list_last = None,
                        list_size = 0, list_fun = f\<rparr> of
        (p, s) \<Rightarrow> s\<lparr>list_first := p, list_last := p, list_size := 0, list_fun := f\<rparr>)"

definition linked_list_size :: "state \<Rightarrow> nat" where
  "linked_list_size s = list_size s"

definition linked_list_append :: "state \<Rightarrow> elem \<Rightarrow> fault + state" where
  "linked_list_append s v =
     (case link_new s v None of
        (link_to_append, s1) \<Rightarrow>
          if link_to_append = None then Inr s1
          else (case store_next s1 (list_last s1) link_to_append of
                  Inl e \<Rightarrow> Inl e
                | Inr s2 \<Rightarrow>
                    Inr (s2\<lparr>list_last := link_to_append,
                            list_size := (list_size s2 + 1) mod 2 ^ 64\<rparr>)))"

definition linked_list_prepend :: "state \<Rightarrow> elem \<Rightarrow> fault + state" where
  "linked_list_prepend s v =
     (case deref s (list_first s) of
        Inl e \<Rightarrow> Inl e
      | Inr sentinel \<Rightarrow>
          (case link_new s v (link_next sentinel) of
             (link_to_prepend, s1) \<Rightarrow>
               if link_to_prepend = None then Inr s1
               else (let s2 = (if list_first s1 = list_last s1
                               then s1\<lparr>list_last := link_to_prepend\<rparr> else s1)
                     in case store_next s2 (list_first s2) link_to_prepend of
                          Inl e \<Rightarrow> Inl e
                        | Inr s3 \<Rightarrow> Inr (s3\<lparr>list_size := (list_size s3 + 1) mod 2 ^ 64\<rparr>))))"

text \<open>
  The loop \<^verbatim>\<open>for (size_t i = 0; i < valid_index; ++i) iterator_next(iter);\<close> of
  insert, remove and get.
\<close>

fun next_times :: "nat \<Rightarrow> state \<Rightarrow> iter \<Rightarrow> fault + iter" where
  "next_times 0 s it = Inr it"
| "next_times (Suc n) s it =
     (case iterator_next s it of
        Inl e \<Rightarrow> Inl e
      | Inr (v, it') \<Rightarrow> next_times n s it')"

definition linked_list_insert :: "state \<Rightarrow> int \<Rightarrow> elem \<Rightarrow> fault + state" where
  "linked_list_insert s index v =
     (let size = linked_list_size s;
          adjusted_index = list_inner_adjust_index index size;
          valid_index = to_size_t adjusted_index
      in if adjusted_index = - 1 then Inr s
         else if valid_index = 0 then linked_list_prepend s v
         else if valid_index = size then linked_list_append s v
         else (case list_iterator s of
                 Inl e \<Rightarrow> Inl e
               | Inr (iter, s0) \<Rightarrow>
                   (case next_times valid_index s0 iter of
                      Inl e \<Rightarrow> Inl e
                    | Inr it \<Rightarrow>
                        (case iterator_insert s0 it v of
                           Inl e \<Rightarrow> Inl e
                         | Inr (it', s1) \<Rightarrow>
                             Inr (iterator_destroy
                                    (s1\<lparr>list_size := (list_size s1 + 1) mod 2 ^ 64\<rparr>) it')))))"

text \<open>
  \<^verbatim>\<open>const int size = linked_list_size(list); const int upper_limit = size - 1;\<close>
  and \<^verbatim>\<open>upper_limit\<close> is then passed as a \<^verbatim>\<open>size_t\<close>.
\<close>

definition linked_list_remove :: "state \<Rightarrow> int \<Rightarrow> fault + (elem \<times> state)" where
  "linked_list_remove s index =
     (let size = to_int (int (linked_list_size s))
      in if size = - (2 ^ 31) then Inl Signed_overflow
         else
           (let upper_limit = size - 1;
                adjusted_index = list_inner_adjust_index index (to_size_t upper_limit);
                valid_index = to_size_t adjusted_index
            in if adjusted_index = - 1 then Inr (int_elem (- 1), s)
               else (case list_iterator s of
                       Inl e \<Rightarrow> Inl e
                     | Inr (iter, s0) \<Rightarrow>
                         (case next_times valid_index s0 iter of
                            Inl e \<Rightarrow> Inl e
                          | Inr it \<Rightarrow>
                              (case iterator_remove s0 it of
                                 Inl e \<Rightarrow> Inl e
                               | Inr (value_removed, it', s1) \<Rightarrow>
                                   Inr (value_removed,
                                        iterator_destroy
                                          (s1\<lparr>list_size :=
                                                (list_size s1 + (2 ^ 64 - 1)) mod 2 ^ 64\<rparr>)
                                          it'))))))"

definition linked_list_get :: "state \<Rightarrow> int \<Rightarrow> fault + (elem \<times> state)" where
  "linked_list_get s index =
     (let size = to_int (int (linked_list_size s))
      in if size = - (2 ^ 31) then Inl Signed_overflow
         else
           (let upper_limit = size - 1;
                adjusted_index = list_inner_adjust_index index (to_size_t upper_limit);
                valid_index = to_size_t adjusted_index
            in if adjusted_index = - 1 then Inr (int_elem (- 1), s)
               else (case list_iterator s of
                       Inl e \<Rightarrow> Inl e
                     | Inr (iter, s0) \<Rightarrow>
                         (case next_times valid_index s0 iter of
                            Inl e \<Rightarrow> Inl e
                          | Inr it \<Rightarrow>
                              (case iterator_current s0 it of
                                 Inl e \<Rightarrow> Inl e
                               | Inr value \<Rightarrow> Inr (value, iterator_destroy s0 it))))))"

text \<open>
  \<^verbatim>\<open>linked_list_contains\<close>. The comparator is the function stored in the list; the
  model returns, with the result, the argument pairs of its calls in the order they
  were made. A loop over the links that does not end has the value \<open>None\<close>. Like
  every operation that makes an iterator, it returns the state as well, in which the
  allocator has given its answer.
\<close>

partial_function (option) contains_loop ::
  "state \<Rightarrow> elem \<Rightarrow> iter \<Rightarrow> (elem \<times> elem) list \<Rightarrow> (fault + bool \<times> (elem \<times> elem) list) option"
where
  "contains_loop s element it calls =
     (case iterator_has_next s it of
        Inl e \<Rightarrow> Some (Inl e)
      | Inr b \<Rightarrow>
          if \<not> b then Some (Inr (False, calls))
          else (case iterator_next s it of
                  Inl e \<Rightarrow> Some (Inl e)
                | Inr (current_value, it') \<Rightarrow>
                    if list_fun s current_value element
                    then Some (Inr (True, calls @ [(current_value, element)]))
                    else contains_loop s element it' (calls @ [(current_value, element)])))"

definition linked_list_contains ::
  "state \<Rightarrow> elem \<Rightarrow> (fault + bool \<times> (elem \<times> elem) list \<times> state) option" where
  "linked_list_contains s element =
     (case list_iterator s of
        Inl e \<Rightarrow> Some (Inl e)
      | Inr (iter, s0) \<Rightarrow>
          (case contains_loop s0 element iter [] of
             None \<Rightarrow> None
           | Some (Inl e) \<Rightarrow> Some (Inl e)
           | Some (Inr (result, calls)) \<Rightarrow>
               Some (Inr (result, calls, iterator_destroy s0 iter))))"

partial_function (option) calculate_size_loop ::
  "state \<Rightarrow> iter \<Rightarrow> nat \<Rightarrow> (fault + nat) option"
where
  "calculate_size_loop s it counted =
     (case iterator_has_next s it of
        Inl e \<Rightarrow> Some (Inl e)
      | Inr b \<Rightarrow>
          if \<not> b then Some (Inr counted)
          else (case iterator_next s it of
                  Inl e \<Rightarrow> Some (Inl e)
                | Inr (v, it') \<Rightarrow> calculate_size_loop s it' ((counted + 1) mod 2 ^ 64)))"

definition linked_list_calculate_size :: "state \<Rightarrow> (fault + nat \<times> state) option" where
  "linked_list_calculate_size s =
     (case list_iterator s of
        Inl e \<Rightarrow> Some (Inl e)
      | Inr (iter, s0) \<Rightarrow>
          (case calculate_size_loop s0 iter 0 of
             None \<Rightarrow> None
           | Some (Inl e) \<Rightarrow> Some (Inl e)
           | Some (Inr counted) \<Rightarrow> Some (Inr (counted, iterator_destroy s0 iter))))"

definition linked_list_is_empty :: "state \<Rightarrow> bool" where
  "linked_list_is_empty s = (if linked_list_size s = 0 then True else False)"

partial_function (option) clear_loop :: "state \<Rightarrow> iter \<Rightarrow> (fault + state) option"
where
  "clear_loop s it =
     (case iterator_has_next s it of
        Inl e \<Rightarrow> Some (Inl e)
      | Inr b \<Rightarrow>
          if \<not> b then Some (Inr s)
          else (case iterator_remove s it of
                  Inl e \<Rightarrow> Some (Inl e)
                | Inr (v, it1, s1) \<Rightarrow>
                    clear_loop (s1\<lparr>list_size := (list_size s1 + (2 ^ 64 - 1)) mod 2 ^ 64\<rparr>)
                      (iterator_reset s1 it1)))"

definition linked_list_clear :: "state \<Rightarrow> (fault + state) option" where
  "linked_list_clear s =
     (if \<not> linked_list_is_empty s
      then (case list_iterator s of
              Inl e \<Rightarrow> Some (Inl e)
            | Inr (iter, s0) \<Rightarrow>
                (case clear_loop s0 iter of
                   None \<Rightarrow> None
                 | Some (Inl e) \<Rightarrow> Some (Inl e)
                 | Some (Inr s1) \<Rightarrow> Some (Inr (iterator_destroy s1 iter))))
      else Some (Inr s))"

text \<open>
  \<^verbatim>\<open>linked_list_all\<close>: \<^verbatim>\<open>result = result && prop(iterator_current(iter), extra)\<close>
  evaluates its right operand only while \<^verbatim>\<open>result\<close> is true. The model returns, with
  the result, the elements the predicate was called on, in the order of the calls.
\<close>

partial_function (option) all_loop ::
  "state \<Rightarrow> (elem \<Rightarrow> 'x \<Rightarrow> bool) \<Rightarrow> 'x \<Rightarrow> iter \<Rightarrow> bool \<Rightarrow> elem list \<Rightarrow> (fault + bool \<times> elem list) option"
where
  "all_loop s prop extra it result calls =
     (case iterator_has_next s it of
        Inl e \<Rightarrow> Some (Inl e)
      | Inr b \<Rightarrow>
          if \<not> b then Some (Inr (result, calls))
          else if result
          then (case iterator_current s it of
                  Inl e \<Rightarrow> Some (Inl e)
                | Inr v \<Rightarrow>
                    (case iterator_next s it of
                       Inl e \<Rightarrow> Some (Inl e)
                     | Inr (w, it') \<Rightarrow> all_loop s prop extra it' (prop v extra) (calls @ [v])))
          else (case iterator_next s it of
                  Inl e \<Rightarrow> Some (Inl e)
                | Inr (w, it') \<Rightarrow> all_loop s prop extra it' False calls))"

definition linked_list_all ::
  "state \<Rightarrow> (elem \<Rightarrow> 'x \<Rightarrow> bool) \<Rightarrow> 'x \<Rightarrow> (fault + bool \<times> elem list \<times> state) option"
where
  "linked_list_all s prop extra =
     (case list_iterator s of
        Inl e \<Rightarrow> Some (Inl e)
      | Inr (iter, s0) \<Rightarrow>
          (case all_loop s0 prop extra iter True [] of
             None \<Rightarrow> None
           | Some (Inl e) \<Rightarrow> Some (Inl e)
           | Some (Inr (result, calls)) \<Rightarrow>
               Some (Inr (result, calls, iterator_destroy s0 iter))))"

text \<open>
  \<^verbatim>\<open>linked_list_apply_to_all\<close>:
  \<^verbatim>\<open>for (link_t *cursor = list->first; cursor; cursor = cursor->next) fun(&cursor->value, extra);\<close>
  The callback is a function from the value it finds to the value it leaves. The model
  returns, with the state, the values the callback was called on, in the order of the
  calls.
\<close>

partial_function (option) apply_loop ::
  "state \<Rightarrow> (elem \<Rightarrow> 'x \<Rightarrow> elem) \<Rightarrow> 'x \<Rightarrow> ptr \<Rightarrow> elem list \<Rightarrow> (fault + state \<times> elem list) option"
where
  "apply_loop s f extra cursor calls =
     (case cursor of
        None \<Rightarrow> Some (Inr (s, calls))
      | Some a \<Rightarrow>
          (case heap s a of
             None \<Rightarrow> Some (Inl Invalid_access)
           | Some l \<Rightarrow>
               apply_loop
                 (s\<lparr>heap := (heap s)(a \<mapsto> l\<lparr>link_value := f (link_value l) extra\<rparr>)\<rparr>)
                 f extra (link_next l) (calls @ [link_value l])))"

definition linked_list_apply_to_all ::
  "state \<Rightarrow> (elem \<Rightarrow> 'x \<Rightarrow> elem) \<Rightarrow> 'x \<Rightarrow> (fault + state \<times> elem list) option" where
  "linked_list_apply_to_all s f extra = apply_loop s f extra (list_first s) []"

text \<open>Sequencing: the second step runs on the result of the first unless that faulted.\<close>

definition and_then :: "fault + 'a \<Rightarrow> ('a \<Rightarrow> fault + 'b) \<Rightarrow> fault + 'b" where
  "and_then r f = (case r of Inl e \<Rightarrow> Inl e | Inr x \<Rightarrow> f x)"

section \<open>What a list holds\<close>

text \<open>
  \<open>chain h p xs\<close>: the links from \<open>p\<close> along \<^verbatim>\<open>next\<close> up to \<^verbatim>\<open>NULL\<close> are exactly
  those at the addresses of \<open>xs\<close>, in order, with the values of \<open>xs\<close>.
\<close>

fun chain :: "(addr \<Rightarrow> link option) \<Rightarrow> ptr \<Rightarrow> (addr \<times> elem) list \<Rightarrow> bool" where
  "chain h p [] = (p = None)"
| "chain h p ((a, v) # xs) =
     (p = Some a \<and>
      (case h a of None \<Rightarrow> False | Some l \<Rightarrow> link_value l = v \<and> chain h (link_next l) xs))"

text \<open>
  \<open>list_holds s xs\<close>: the sentinel is allocated and the data links after it are \<open>xs\<close>.
\<close>

definition list_holds :: "state \<Rightarrow> (addr \<times> elem) list \<Rightarrow> bool" where
  "list_holds s xs =
     (case deref s (list_first s) of
        Inl e \<Rightarrow> False
      | Inr sentinel \<Rightarrow> chain (heap s) (link_next sentinel) xs)"

text \<open>
  A list as the operations build it: \<^verbatim>\<open>create\<close>, then \<^verbatim>\<open>append\<close> of 1 and of 2, with
  an allocator that gives the addresses 0, 1, 2 and has \<open>al\<close> left to give.
\<close>

definition list_1_2 :: "ptr list \<Rightarrow> state" where
  "list_1_2 al =
     \<lparr>heap = (\<lambda>a. None)(0 \<mapsto> \<lparr>link_value = int_elem 0, link_next = Some 1\<rparr>,
                          1 \<mapsto> \<lparr>link_value = int_elem 1, link_next = Some 2\<rparr>,
                          2 \<mapsto> \<lparr>link_value = int_elem 2, link_next = None\<rparr>),
      allocs = al, list_first = Some 0, list_last = Some 2, list_size = 2,
      list_fun = (\<lambda>a b. a = b)\<rparr>"

text \<open>
  The list of the single value -1, at address 1, with an allocator that has the address
  2 to give.
\<close>

definition list_minus_1 :: state where
  "list_minus_1 =
     \<lparr>heap = (\<lambda>a. None)(0 \<mapsto> \<lparr>link_value = int_elem 0, link_next = Some 1\<rparr>,
                          1 \<mapsto> \<lparr>link_value = int_elem (- 1), link_next = None\<rparr>),
      allocs = [Some 2], list_first = Some 0, list_last = Some 1, list_size = 1,
      list_fun = (\<lambda>a b. a = b)\<rparr>"

section \<open>Evaluation on concrete lists\<close>

lemmas eval_defs = linked_list_create_def calloc_link_def link_new_def deref_def store_next_def
  free_link_def calloc_iterator_def list_iterator_def iterator_destroy_def iterator_insert_def
  iterator_has_next_def iterator_next_def iterator_remove_def iterator_reset_def
  iterator_current_def linked_list_size_def linked_list_append_def linked_list_prepend_def
  linked_list_insert_def linked_list_remove_def linked_list_get_def
  list_inner_adjust_index_def to_size_t_def to_int_def linked_list_is_empty_def and_then_def
  list_holds_def list_1_2_def

lemma list_1_2_built:
  "and_then
     (linked_list_append (linked_list_create (\<lambda>a b. a = b) (Some 0 # Some 1 # Some 2 # al))
        (int_elem 1))
     (\<lambda>s. linked_list_append s (int_elem 2)) = Inr (list_1_2 al)"
  by (simp add: eval_defs fun_upd_twist)

lemma list_iterator_allocated:
  "allocs s = Some p # al \<Longrightarrow> heap s p = None \<Longrightarrow>
   list_iterator s = Inr (\<lparr>iter_current = list_first s\<rparr>, s\<lparr>allocs := al\<rparr>)"
  by (simp add: list_iterator_def calloc_iterator_def)

lemma list_iterator_null:
  "allocs s = None # al \<Longrightarrow> list_iterator s = Inl Null_dereference"
  by (simp add: list_iterator_def calloc_iterator_def)

section \<open>Chains of links\<close>

lemma chain_nth:
  "chain h p xs \<Longrightarrow> i < length xs \<Longrightarrow>
   \<exists>l. h (fst (xs ! i)) = Some l \<and> link_value l = snd (xs ! i) \<and>
       link_next l = (if Suc i < length xs then Some (fst (xs ! Suc i)) else None)"
proof (induction xs arbitrary: p i)
  case Nil
  then show ?case by simp
next
  case (Cons x xs)
  obtain a v where x: "x = (a, v)" by (cases x)
  from Cons.prems x obtain l where l: "p = Some a" "h a = Some l" "link_value l = v"
    "chain h (link_next l) xs"
    by (auto split: option.splits)
  show ?case
  proof (cases i)
    case 0
    show ?thesis
    proof (cases xs)
      case Nil
      with 0 x l show ?thesis by simp
    next
      case (Cons y ys)
      with l(4) have "link_next l = Some (fst y)" by (cases y) simp
      with 0 x l Cons show ?thesis by simp
    qed
  next
    case (Suc j)
    with Cons.prems have "j < length xs" by simp
    from Cons.IH [OF l(4) this] Suc show ?thesis by auto
  qed
qed

section \<open>The iterator along a chain\<close>

lemma has_next_chain:
  "heap s c = Some l \<Longrightarrow> iterator_has_next s \<lparr>iter_current = Some c\<rparr> = Inr (link_next l \<noteq> None)"
  by (simp add: iterator_has_next_def deref_def)

lemma next_chain:
  "heap s c = Some l \<Longrightarrow> link_next l = Some a \<Longrightarrow> heap s a = Some l' \<Longrightarrow>
   iterator_next s \<lparr>iter_current = Some c\<rparr> = Inr (link_value l', \<lparr>iter_current = Some a\<rparr>)"
  by (simp add: iterator_next_def deref_def)

lemma current_chain:
  "heap s c = Some l \<Longrightarrow> link_next l = Some a \<Longrightarrow> heap s a = Some l' \<Longrightarrow>
   iterator_current s \<lparr>iter_current = Some c\<rparr> = Inr (link_value l')"
  by (simp add: iterator_current_def iterator_has_next_def deref_def)

lemma contains_loop_chain:
  "heap s c = Some l \<Longrightarrow> chain (heap s) (link_next l) xs \<Longrightarrow>
   contains_loop s element \<lparr>iter_current = Some c\<rparr> calls =
     Some (Inr (\<exists>x \<in> set (map snd xs). list_fun s x element,
                calls @ map (\<lambda>x. (x, element))
                  (takeWhile (\<lambda>x. \<not> list_fun s x element) (map snd xs) @
                   take 1 (dropWhile (\<lambda>x. \<not> list_fun s x element) (map snd xs)))))"
proof (induction xs arbitrary: c l calls)
  case Nil
  then show ?case
    by (subst contains_loop.simps) (simp add: has_next_chain)
next
  case (Cons x xs)
  obtain a v where x: "x = (a, v)" by (cases x)
  from Cons.prems x obtain l' where l': "link_next l = Some a" "heap s a = Some l'"
    "link_value l' = v" "chain (heap s) (link_next l') xs"
    by (auto split: option.splits)
  show ?case
  proof (cases "list_fun s v element")
    case True
    with Cons.prems(1) l' x show ?thesis
      by (subst contains_loop.simps) (simp add: has_next_chain next_chain)
  next
    case False
    with Cons.prems(1) l' x Cons.IH [OF l'(2) l'(4)] show ?thesis
      by (subst contains_loop.simps) (simp add: has_next_chain next_chain)
  qed
qed

lemma all_loop_false:
  "heap s c = Some l \<Longrightarrow> chain (heap s) (link_next l) xs \<Longrightarrow>
   all_loop s prop extra \<lparr>iter_current = Some c\<rparr> False calls = Some (Inr (False, calls))"
proof (induction xs arbitrary: c l)
  case Nil
  then show ?case
    by (subst all_loop.simps) (simp add: has_next_chain)
next
  case (Cons x xs)
  obtain a v where x: "x = (a, v)" by (cases x)
  from Cons.prems x obtain l' where l': "link_next l = Some a" "heap s a = Some l'"
    "link_value l' = v" "chain (heap s) (link_next l') xs"
    by (auto split: option.splits)
  with Cons.prems(1) Cons.IH [OF l'(2) l'(4)] show ?case
    by (subst all_loop.simps) (simp add: has_next_chain next_chain)
qed

lemma all_loop_true:
  "heap s c = Some l \<Longrightarrow> chain (heap s) (link_next l) xs \<Longrightarrow>
   all_loop s prop extra \<lparr>iter_current = Some c\<rparr> True calls =
     Some (Inr (list_all (\<lambda>x. prop x extra) (map snd xs),
                calls @ takeWhile (\<lambda>x. prop x extra) (map snd xs) @
                  take 1 (dropWhile (\<lambda>x. prop x extra) (map snd xs))))"
proof (induction xs arbitrary: c l calls)
  case Nil
  then show ?case
    by (subst all_loop.simps) (simp add: has_next_chain)
next
  case (Cons x xs)
  obtain a v where x: "x = (a, v)" by (cases x)
  from Cons.prems x obtain l' where l': "link_next l = Some a" "heap s a = Some l'"
    "link_value l' = v" "chain (heap s) (link_next l') xs"
    by (auto split: option.splits)
  show ?case
  proof (cases "prop v extra")
    case True
    with Cons.prems(1) l' x Cons.IH [OF l'(2) l'(4)] show ?thesis
      by (subst all_loop.simps) (simp add: has_next_chain next_chain current_chain)
  next
    case False
    with Cons.prems(1) l' x all_loop_false [OF l'(2) l'(4)] show ?thesis
      by (subst all_loop.simps) (simp add: has_next_chain next_chain current_chain)
  qed
qed

section \<open>Machine arithmetic in range\<close>

lemma to_size_t_nonneg: "0 \<le> x \<Longrightarrow> x < 2 ^ 64 \<Longrightarrow> to_size_t x = nat x"
  by (simp add: to_size_t_def)

lemma to_int_small: "- (2 ^ 31) \<le> x \<Longrightarrow> x < 2 ^ 31 \<Longrightarrow> to_int x = x"
  unfolding to_int_def by (simp add: mod_pos_pos_trivial)

lemma adjust_index_in_range:
  assumes "0 \<le> i" and "i \<le> int ub" and "ub < 2 ^ 64"
  shows "list_inner_adjust_index i ub = i"
proof -
  from assms(3) have "int ub < 2 ^ 64" by simp
  with assms(2) have "i < 2 ^ 64" by linarith
  with assms(1) have "to_size_t i = nat i" by (rule to_size_t_nonneg)
  with assms show ?thesis by (simp add: list_inner_adjust_index_def)
qed

lemma adjust_index_too_large:
  assumes "int ub < i" and "i < 2 ^ 31"
  shows "list_inner_adjust_index i ub = - 1"
proof -
  have pow: "(2::int) ^ 31 < 2 ^ 64" by simp
  from assms have i0: "0 \<le> i" by linarith
  from assms(2) pow have "i < 2 ^ 64" by linarith
  with i0 have "to_size_t i = nat i" by (rule to_size_t_nonneg)
  with assms(1) i0 show ?thesis by (simp add: list_inner_adjust_index_def)
qed

lemma adjust_index_too_negative:
  assumes "i < 0" and "- (2 ^ 31) \<le> i" and "i + int ub < 0"
  shows "list_inner_adjust_index i ub = - 1"
proof -
  let ?m = "i + int ub"
  have pow: "(2::int) ^ 31 < 2 ^ 64" by simp
  from assms pow have i_range: "0 \<le> i + 2 ^ 64" "i + 2 ^ 64 < 2 ^ 64" by linarith+
  have "i mod 2 ^ 64 = (i + 2 ^ 64) mod 2 ^ 64" by simp
  also from i_range have "\<dots> = i + 2 ^ 64" by (rule mod_pos_pos_trivial)
  finally have conv: "to_size_t i = nat (i + 2 ^ 64)" by (simp add: to_size_t_def)
  from i_range have "int (to_size_t i + ub) = ?m + 2 ^ 64" by (simp add: conv)
  moreover from assms pow have "0 \<le> ?m + 2 ^ 64" "?m + 2 ^ 64 < 2 ^ 64" by linarith+
  then have "(?m + 2 ^ 64) mod 2 ^ 64 = ?m + 2 ^ 64" by (rule mod_pos_pos_trivial)
  ultimately have sum: "int ((to_size_t i + ub) mod 2 ^ 64) = ?m + 2 ^ 64"
    by (simp add: zmod_int)
  have "(?m + 2 ^ 64 + 2 ^ 31) mod 2 ^ 32 = (?m + 2 ^ 31 + 2 ^ 32 * 2 ^ 32) mod 2 ^ 32"
    by (simp add: algebra_simps)
  also have "\<dots> = (?m + 2 ^ 31) mod 2 ^ 32" by (rule mod_mult_self2)
  also have "\<dots> = ?m + 2 ^ 31"
  proof (rule mod_pos_pos_trivial)
    from assms show "0 \<le> ?m + 2 ^ 31" by linarith
    have "(2::int) ^ 31 < 2 ^ 32" by simp
    with assms show "?m + 2 ^ 31 < 2 ^ 32" by linarith
  qed
  finally have "to_int (?m + 2 ^ 64) = ?m" by (simp add: to_int_def)
  with sum assms show ?thesis by (simp add: list_inner_adjust_index_def)
qed

lemma bad_index_rejected:
  assumes n: "0 < n" "n < 2 ^ 31" and i: "- (2 ^ 31) \<le> i" "i < 2 ^ 31"
    and bad: "int n \<le> i \<or> i + int n \<le> 0"
  shows "list_inner_adjust_index i (to_size_t (int n - 1)) = - 1"
proof -
  have pow: "(2::int) ^ 31 < 2 ^ 64" by simp
  from n(2) have "int n < 2 ^ 31" by simp
  with n(1) pow have "0 \<le> int n - 1" "int n - 1 < 2 ^ 64" by linarith+
  then have "to_size_t (int n - 1) = nat (int n - 1)" by (rule to_size_t_nonneg)
  then have ub: "to_size_t (int n - 1) = n - 1" by simp
  from n(1) have m: "int (n - 1) = int n - 1" by simp
  show ?thesis
  proof (cases "int n \<le> i")
    case True
    with m have "int (n - 1) < i" by linarith
    then show ?thesis unfolding ub using i(2) by (rule adjust_index_too_large)
  next
    case False
    with bad have le: "i + int n \<le> 0" by simp
    with n(1) have "i < 0" by linarith
    moreover from le m have "i + int (n - 1) < 0" by linarith
    ultimately show ?thesis unfolding ub using i(1) by (intro adjust_index_too_negative)
  qed
qed

section \<open>Positions in the list\<close>

lemma next_times_chain:
  "chain (heap s) (Some c) ys \<Longrightarrow> k < length ys \<Longrightarrow>
   next_times k s \<lparr>iter_current = Some c\<rparr> = Inr \<lparr>iter_current = Some (fst (ys ! k))\<rparr>"
proof (induction k arbitrary: c ys)
  case 0
  then show ?case by (cases ys) auto
next
  case (Suc k)
  from Suc.prems obtain y z zs where ys: "ys = y # z # zs"
    by (cases ys; cases "tl ys") auto
  obtain a v where z: "z = (a, v)" by (cases z)
  from Suc.prems(1) ys z obtain l l' where l: "heap s c = Some l" "link_next l = Some a"
    "heap s a = Some l'" "chain (heap s) (Some a) (z # zs)"
    by (cases y) (auto split: option.splits)
  from Suc.prems(2) ys have "k < length (z # zs)" by simp
  from Suc.IH [OF l(4) this] l(1-3) ys show ?case
    by (simp add: next_chain)
qed

lemma holds_full_chain:
  "list_holds s xs \<Longrightarrow>
   \<exists>f sentinel. list_first s = Some f \<and> heap s f = Some sentinel \<and>
     chain (heap s) (Some f) ((f, link_value sentinel) # xs)"
  by (auto simp: list_holds_def deref_def split: option.splits)

lemma get_in_range:
  assumes holds: "list_holds s xs" and size: "list_size s = length xs"
    and small: "length xs < 2 ^ 31" and i: "0 \<le> i" "i < int (length xs)"
    and alloc: "allocs s = Some p # al" "heap s p = None"
  shows "linked_list_get s i = Inr (snd (xs ! nat i), s\<lparr>allocs := al\<rparr>)"
proof -
  let ?s0 = "s\<lparr>allocs := al\<rparr>"
  from holds obtain f sentinel where f: "list_first s = Some f" "heap s f = Some sentinel"
    and ch: "chain (heap s) (Some f) ((f, link_value sentinel) # xs)"
    by (blast dest: holds_full_chain)
  let ?ys = "(f, link_value sentinel) # xs"
  let ?n = "int (length xs)"
  from ch have ch0: "chain (heap ?s0) (Some f) ?ys" by simp
  have iter: "list_iterator s = Inr (\<lparr>iter_current = Some f\<rparr>, ?s0)"
    using list_iterator_allocated [OF alloc] f(1) by simp
  have pow: "(2::int) ^ 31 < 2 ^ 64" by simp
  from small have n_small: "?n < 2 ^ 31" by simp
  then have sz: "to_int ?n = ?n" by (simp add: to_int_small)
  from i n_small pow have "0 \<le> ?n - 1" "?n - 1 < 2 ^ 64" by linarith+
  then have "to_size_t (?n - 1) = nat (?n - 1)" by (rule to_size_t_nonneg)
  then have up: "to_size_t (?n - 1) = length xs - 1" by simp
  from i small have adj: "list_inner_adjust_index i (length xs - 1) = i"
    by (intro adjust_index_in_range) auto
  from i n_small pow have "i < 2 ^ 64" by linarith
  with i(1) have vi: "to_size_t i = nat i" by (rule to_size_t_nonneg)
  from i have k: "nat i < length ?ys" "Suc (nat i) < length ?ys" by auto
  from next_times_chain [OF ch0 k(1)]
  have pos: "next_times (nat i) ?s0 \<lparr>iter_current = Some f\<rparr> =
      Inr \<lparr>iter_current = Some (fst (?ys ! nat i))\<rparr>" .
  from chain_nth [OF ch0 k(1)] k(2) obtain l where l: "heap ?s0 (fst (?ys ! nat i)) = Some l"
    "link_next l = Some (fst (?ys ! Suc (nat i)))"
    by auto
  from chain_nth [OF ch0 k(2)] obtain l' where l': "heap ?s0 (fst (?ys ! Suc (nat i))) = Some l'"
    "link_value l' = snd (?ys ! Suc (nat i))"
    by auto
  from l l' have "iterator_current ?s0 \<lparr>iter_current = Some (fst (?ys ! nat i))\<rparr> =
      Inr (snd (xs ! nat i))"
    by (simp add: current_chain)
  with pos sz up adj vi i iter size show ?thesis
    by (simp add: linked_list_get_def linked_list_size_def iterator_destroy_def)
qed

section \<open>The tail reference after a removal\<close>

text \<open>
  C1. The tail reference is the sentinel if and only if the list is empty, and otherwise
  the last data link. Evaluated on \<^verbatim>\<open>create\<close>, \<^verbatim>\<open>append\<close> of 1, \<^verbatim>\<open>remove\<close> at index 0
  (the allocator gives the addresses 0 and 1 to the links and 2 to the iterator of
  \<^verbatim>\<open>remove\<close>): the value 1 comes back and the list holds nothing, with size 0, but
  \<^verbatim>\<open>last\<close> is still the address 1 of the removed link, which is freed, and not the
  sentinel at address 0. \<^verbatim>\<open>linked_list_remove\<close> never assigns \<^verbatim>\<open>list->last\<close>.
\<close>

theorem remove_last_keeps_stale_tail:
  "and_then
     (linked_list_append (linked_list_create (\<lambda>a b. a = b) [Some 0, Some 1, Some 2])
        (int_elem 1))
     (\<lambda>s1. and_then (linked_list_remove s1 0)
        (\<lambda>(v, s2). Inr (v, list_holds s2 [], list_size s2, list_first s2, list_last s2,
                          heap s2 1)))
   = Inr (int_elem 1, True, 0, Some 0, Some 1, None)"
  by (simp add: eval_defs)

text \<open>
  \<^verbatim>\<open>linked_list_clear\<close> leaves the same stale \<^verbatim>\<open>last\<close>. An \<^verbatim>\<open>append\<close> after
  the removal writes through it, into the freed link. And when the allocator hands the
  freed address out again, no access is invalid but elements are lost: after
  \<^verbatim>\<open>create\<close>, \<^verbatim>\<open>append\<close> of 1 and of 2, \<^verbatim>\<open>remove\<close> at index 1, \<^verbatim>\<open>prepend\<close> of 5
  (at the freed address 2) and \<^verbatim>\<open>append\<close> of 7, the list holds 5 and 7 only, while
  \<^verbatim>\<open>size\<close> is 3.
\<close>

lemma clear_keeps_stale_tail:
  "and_then
     (linked_list_append (linked_list_create (\<lambda>a b. a = b) [Some 0, Some 1, Some 2])
        (int_elem 1))
     (\<lambda>s1. Inr (map_option
        (map_sum id
           (\<lambda>s2. (list_holds s2 [], list_size s2, list_first s2, list_last s2, heap s2 1)))
        (linked_list_clear s1)))
   = Inr (Some (Inr (True, 0, Some 0, Some 1, None)))"
  by (simp add: eval_defs linked_list_clear_def clear_loop.simps)

lemma append_through_stale_tail_faults:
  "and_then
     (linked_list_append (linked_list_create (\<lambda>a b. a = b) [Some 0, Some 1, Some 2, Some 3])
        (int_elem 1))
     (\<lambda>s1. and_then (linked_list_remove s1 0)
        (\<lambda>(v, s2). linked_list_append s2 (int_elem 2)))
   = Inl Invalid_access"
  by (simp add: eval_defs)

lemma stale_tail_loses_elements:
  "and_then
     (linked_list_append
        (linked_list_create (\<lambda>a b. a = b)
           [Some 0, Some 1, Some 2, Some 3, Some 2, Some 3, Some 4])
        (int_elem 1))
     (\<lambda>s1. and_then (linked_list_append s1 (int_elem 2))
        (\<lambda>s2. and_then (linked_list_remove s2 1)
           (\<lambda>(v, s3). and_then (linked_list_prepend s3 (int_elem 5))
              (\<lambda>s4. and_then (linked_list_append s4 (int_elem 7))
                 (\<lambda>s5. Inr (linked_list_size s5,
                               map_option (map_sum id fst) (linked_list_calculate_size s5),
                               list_holds s5 [(2, int_elem 5), (3, int_elem 7)]))))))
   = Inr (3, Some (Inr 2), True)"
  by (simp add: eval_defs Let_def linked_list_calculate_size_def calculate_size_loop.simps)

section \<open>Removal from the empty list\<close>

text \<open>
  C2. \<^verbatim>\<open>remove\<close> with an index out of range returns the no-value result and leaves the
  list as it is, on the empty list for every index. Evaluated on the empty list at
  index 0, with an allocator that gives the iterator its cell: \<^verbatim>\<open>upper_limit\<close> is -1,
  which as a \<^verbatim>\<open>size_t\<close> is the largest value, so the index passes the check and
  \<^verbatim>\<open>iterator_remove\<close> reads through the \<^verbatim>\<open>NULL\<close> successor of the sentinel.
\<close>

theorem remove_on_empty_list_faults:
  "map_sum id fst (list_iterator (linked_list_create (\<lambda>a b. a = b) [Some 0, Some 1])) =
     Inr \<lparr>iter_current = Some 0\<rparr> \<and>
   linked_list_remove (linked_list_create (\<lambda>a b. a = b) [Some 0, Some 1]) 0 =
     Inl Null_dereference"
  by (simp add: eval_defs)

section \<open>Allocation failure in the middle of the list\<close>

text \<open>
  C3. When the allocation of the link fails, the insertion changes neither the contents
  nor the cached size. Evaluated on \<^verbatim>\<open>create\<close>, \<^verbatim>\<open>append\<close> of 1 and of 2, and
  \<^verbatim>\<open>insert\<close> at index 1 with an allocator that gives the iterator its cell and then
  answers \<^verbatim>\<open>NULL\<close> for the link: the size was 2, the list still holds 1 and 2, and
  \<^verbatim>\<open>size\<close> is 3.
\<close>

theorem failed_insert_in_the_middle_counts:
  "and_then
     (linked_list_append
        (linked_list_create (\<lambda>a b. a = b) [Some 0, Some 1, Some 2, Some 3, None])
        (int_elem 1))
     (\<lambda>s1. and_then (linked_list_append s1 (int_elem 2))
        (\<lambda>s2. and_then (linked_list_insert s2 1 (int_elem 9))
           (\<lambda>s3. Inr (list_size s2, list_holds s3 [(1, int_elem 1), (2, int_elem 2)],
                         list_size s3))))
   = Inr (2, True, 3)"
  by (simp add: eval_defs)

text \<open>
  C4. After every completed operation the cached size is the number of data links, so
  \<^verbatim>\<open>linked_list_calculate_size\<close> agrees with \<^verbatim>\<open>linked_list_size\<close>. Evaluated after the
  same insertion: the cached size is 3 and the traversal counts 2.
\<close>

theorem size_differs_from_calculate_size:
  "and_then
     (linked_list_append
        (linked_list_create (\<lambda>a b. a = b) [Some 0, Some 1, Some 2, Some 3, None, Some 3])
        (int_elem 1))
     (\<lambda>s1. and_then (linked_list_append s1 (int_elem 2))
        (\<lambda>s2. and_then (linked_list_insert s2 1 (int_elem 9))
           (\<lambda>s3. Inr (linked_list_size s3,
                         map_option (map_sum id fst) (linked_list_calculate_size s3)))))
   = Inr (3, Some (Inr 2))"
  by (simp add: eval_defs linked_list_calculate_size_def calculate_size_loop.simps)

section \<open>Traversals with a callback\<close>


text \<open>
  When the iterator is allocated, \<^verbatim>\<open>linked_list_all\<close> on a list that holds \<open>xs\<close>
  returns, its result is whether the predicate holds of every stored value, and the
  predicate is called on the stored values from the front up to and including the first
  one it rejects, and on nothing after that one.
\<close>

lemma all_calls_up_to_first_failure:
  assumes "list_holds s xs" and "allocs s = Some p # al" and "heap s p = None"
  shows "linked_list_all s prop extra =
     Some (Inr (list_all (\<lambda>x. prop x extra) (map snd xs),
                takeWhile (\<lambda>x. prop x extra) (map snd xs) @
                  take 1 (dropWhile (\<lambda>x. prop x extra) (map snd xs)),
                s\<lparr>allocs := al\<rparr>))"
proof -
  from assms(1) obtain f sentinel where f: "list_first s = Some f" "heap s f = Some sentinel"
    "chain (heap s) (link_next sentinel) xs"
    by (auto simp: list_holds_def deref_def split: option.splits)
  let ?s0 = "s\<lparr>allocs := al\<rparr>"
  from f have "heap ?s0 f = Some sentinel" "chain (heap ?s0) (link_next sentinel) xs"
    by simp_all
  from all_loop_true [OF this, of "prop" "extra" "[]"] list_iterator_allocated [OF assms(2,3)] f(1)
  show ?thesis
    by (simp add: linked_list_all_def iterator_destroy_def)
qed

text \<open>
  C6. \<^verbatim>\<open>linked_list_apply_to_all\<close> calls the callback once per stored value, in order,
  and on nothing else. Evaluated on \<^verbatim>\<open>create\<close>, \<^verbatim>\<open>append\<close> of 1 and of 2: the loop
  starts at \<^verbatim>\<open>list->first\<close>, the sentinel, so with size 2 the callback is called three
  times, first on the zeroed value of the sentinel.
\<close>

theorem apply_to_all_visits_sentinel:
  "and_then
     (linked_list_append (linked_list_create (\<lambda>a b. a = b) [Some 0, Some 1, Some 2])
        (int_elem 1))
     (\<lambda>s1. and_then (linked_list_append s1 (int_elem 2))
        (\<lambda>s2. Inr (linked_list_size s2,
                      map_option (map_sum id snd)
                        (linked_list_apply_to_all s2 (\<lambda>v x. x) (int_elem 4)))))
   = Inr (2, Some (Inr [int_elem 0, int_elem 1, int_elem 2]))"
  by (simp add: eval_defs linked_list_apply_to_all_def apply_loop.simps)


text \<open>
  When the iterator is allocated, \<^verbatim>\<open>linked_list_contains\<close> on a list that holds
  \<open>xs\<close> returns, its result is whether the comparator accepts some stored value, and
  the comparator is called with the stored value first and the sought value second, on
  the stored values from the front up to and including the first one it accepts.
\<close>

lemma contains_calls_up_to_first_match:
  assumes "list_holds s xs" and "allocs s = Some p # al" and "heap s p = None"
  shows "linked_list_contains s v =
     Some (Inr (\<exists>x \<in> set (map snd xs). list_fun s x v,
                map (\<lambda>x. (x, v))
                  (takeWhile (\<lambda>x. \<not> list_fun s x v) (map snd xs) @
                   take 1 (dropWhile (\<lambda>x. \<not> list_fun s x v) (map snd xs))),
                s\<lparr>allocs := al\<rparr>))"
proof -
  from assms(1) obtain f sentinel where f: "list_first s = Some f" "heap s f = Some sentinel"
    "chain (heap s) (link_next sentinel) xs"
    by (auto simp: list_holds_def deref_def split: option.splits)
  let ?s0 = "s\<lparr>allocs := al\<rparr>"
  from f have "heap ?s0 f = Some sentinel" "chain (heap ?s0) (link_next sentinel) xs"
    by simp_all
  from contains_loop_chain [OF this, of v "[]"] list_iterator_allocated [OF assms(2,3)] f(1)
  show ?thesis
    by (simp add: linked_list_contains_def iterator_destroy_def)
qed

section \<open>Insertion, then retrieval\<close>

text \<open>
  C7. For every list, value and index from 0 up to the size, \<^verbatim>\<open>insert\<close> followed by
  \<^verbatim>\<open>get\<close> at the same index returns the inserted value. Evaluated on \<^verbatim>\<open>create\<close>,
  \<^verbatim>\<open>append\<close> of 1 and of 2, \<^verbatim>\<open>remove\<close> at index 1, then \<^verbatim>\<open>insert\<close> of 9 at index 1
  and \<^verbatim>\<open>get\<close> at index 1, every allocation succeeding (the allocator gives the freed
  address 2 to the new link): the removal returns 2 and leaves the list holding 1, with
  size 1 and the stale \<^verbatim>\<open>last\<close> of C1; the insertion at index 1, the size, appends
  through that \<^verbatim>\<open>last\<close>, so the new link is not reached from the sentinel, and with
  size 2 the \<^verbatim>\<open>get\<close> at index 1 returns the no-value element -1, not 9.
\<close>

theorem insert_after_remove_then_get:
  "and_then
     (linked_list_append
        (linked_list_create (\<lambda>a b. a = b) [Some 0, Some 1, Some 2, Some 3, Some 2, Some 3])
        (int_elem 1))
     (\<lambda>s1. and_then (linked_list_append s1 (int_elem 2))
        (\<lambda>s2. and_then (linked_list_remove s2 1)
           (\<lambda>(v, s3). and_then (linked_list_insert s3 1 (int_elem 9))
              (\<lambda>s4. and_then (linked_list_get s4 1)
                 (\<lambda>(w, s5). Inr (v, list_holds s3 [(1, int_elem 1)], linked_list_size s3,
                                  linked_list_size s4, w))))))
   = Inr (int_elem 2, True, 1, 2, int_elem (- 1))"
  by (simp add: eval_defs Let_def)

text \<open>
  With an allocator that gives the new link a fresh address, the same insertion writes
  through the stale \<^verbatim>\<open>last\<close> into the freed link.
\<close>

lemma insert_after_remove_fresh_address_faults:
  "and_then
     (linked_list_append
        (linked_list_create (\<lambda>a b. a = b) [Some 0, Some 1, Some 2, Some 3, Some 4])
        (int_elem 1))
     (\<lambda>s1. and_then (linked_list_append s1 (int_elem 2))
        (\<lambda>s2. and_then (linked_list_remove s2 1)
           (\<lambda>(v, s3). linked_list_insert s3 1 (int_elem 9))))
   = Inl Invalid_access"
  by (simp add: eval_defs Let_def)

section \<open>Insertion through the iterator\<close>

text \<open>
  C8, as amended. When the iterator stands on an allocated link and the allocation of
  the new link succeeds, \<^verbatim>\<open>iterator_insert\<close> leaves the cursor where it was, makes
  \<^verbatim>\<open>iterator_has_next\<close> true, and the \<^verbatim>\<open>iterator_next\<close> that follows yields the
  inserted value.
\<close>

theorem iterator_insert_then_next:
  assumes "iter_current it = Some c" and "heap s c = Some l"
    and "allocs s = Some a # al" and "heap s a = None"
  shows "\<exists>s'. iterator_insert s it v = Inr (it, s') \<and>
              iterator_has_next s' it = Inr True \<and>
              iterator_next s' it = Inr (v, it\<lparr>iter_current := Some a\<rparr>)"
proof -
  from assms(2,4) have "a \<noteq> c" by auto
  with assms show ?thesis
    by (simp add: iterator_insert_def iterator_has_next_def iterator_next_def deref_def
        link_new_def calloc_link_def store_next_def)
qed

theorem iterator_insert_then_next_witness:
  "heap (list_1_2 [Some 3]) 1 = Some \<lparr>link_value = int_elem 1, link_next = Some 2\<rparr> \<and>
   allocs (list_1_2 [Some 3]) = [Some 3] \<and> heap (list_1_2 [Some 3]) 3 = None \<and>
   (\<exists>s'. iterator_insert (list_1_2 [Some 3]) \<lparr>iter_current = Some 1\<rparr> (int_elem 9) =
            Inr (\<lparr>iter_current = Some 1\<rparr>, s') \<and>
         iterator_has_next s' \<lparr>iter_current = Some 1\<rparr> = Inr True \<and>
         iterator_next s' \<lparr>iter_current = Some 1\<rparr> =
            Inr (int_elem 9, \<lparr>iter_current = Some 3\<rparr>))"
  using iterator_insert_then_next
    [of "\<lparr>iter_current = Some 1\<rparr>" 1 "list_1_2 [Some 3]"
        "\<lparr>link_value = int_elem 1, link_next = Some 2\<rparr>" 3 "[]" "int_elem 9"]
  by (simp add: list_1_2_def)

text \<open>
  C8 as stated fails when the allocation fails: on the empty list, with an allocator
  that gives the iterator its cell and answers \<^verbatim>\<open>NULL\<close> for the link,
  \<^verbatim>\<open>iterator_has_next\<close> is false after \<^verbatim>\<open>iterator_insert\<close>.
\<close>

theorem iterator_insert_alloc_failure:
  "and_then (list_iterator (linked_list_create (\<lambda>a b. a = b) [Some 0, Some 1, None]))
     (\<lambda>(iter, s). and_then (iterator_insert s iter (int_elem 9))
        (\<lambda>(it, s'). iterator_has_next s' it)) = Inr False"
  by (simp add: eval_defs)

section \<open>The no-value marker\<close>

text \<open>
  C9. Whenever \<^verbatim>\<open>get\<close> or \<^verbatim>\<open>remove\<close> is given a bad index, or
  \<^verbatim>\<open>iterator_current\<close> is called with no next element, the result is the element
  whose signed member is -1. Evaluated on the empty list, \<^verbatim>\<open>get\<close> at index 1, with an
  allocator that gives the iterator its cell: as in C2 the index passes the check, and
  the first \<^verbatim>\<open>iterator_next\<close> reads through the \<^verbatim>\<open>NULL\<close> successor of the sentinel,
  so no marker comes back.
\<close>

theorem get_on_empty_list_faults:
  "map_sum id fst (list_iterator (linked_list_create (\<lambda>a b. a = b) [Some 0, Some 1])) =
     Inr \<lparr>iter_current = Some 0\<rparr> \<and>
   linked_list_get (linked_list_create (\<lambda>a b. a = b) [Some 0, Some 1]) 1 =
     Inl Null_dereference"
  by (simp add: eval_defs)

text \<open>
  Where the index check rejects the index, as it does on a list that is not empty for
  every index at or past the size and every negative index that adding
  \<^verbatim>\<open>size - 1\<close> leaves negative, \<^verbatim>\<open>get\<close> and \<^verbatim>\<open>remove\<close> return the element whose
  signed member is -1 and leave the state as it was; \<^verbatim>\<open>iterator_current\<close> with no
  next element returns the same element; and so does a \<^verbatim>\<open>get\<close> at a valid index that
  stores the signed -1.
\<close>

lemma no_value_marker:
  "(list_size s < 2 ^ 31 \<and>
    list_inner_adjust_index i (to_size_t (int (list_size s) - 1)) = - 1 \<longrightarrow>
      linked_list_get s i = Inr (int_elem (- 1), s) \<and>
      linked_list_remove s i = Inr (int_elem (- 1), s)) \<and>
   (0 < list_size s \<and> list_size s < 2 ^ 31 \<and> - (2 ^ 31) \<le> i \<and> i < 2 ^ 31 \<and>
    (int (list_size s) \<le> i \<or> i + int (list_size s) \<le> 0) \<longrightarrow>
      linked_list_get s i = Inr (int_elem (- 1), s) \<and>
      linked_list_remove s i = Inr (int_elem (- 1), s)) \<and>
   (iterator_has_next s it = Inr False \<longrightarrow> iterator_current s it = Inr (int_elem (- 1))) \<and>
   (list_holds s xs \<and> list_size s = length xs \<and> length xs < 2 ^ 31 \<and>
    0 \<le> j \<and> j < int (length xs) \<and> snd (xs ! nat j) = int_elem (- 1) \<and>
    allocs s = Some p # al \<and> heap s p = None \<longrightarrow>
      linked_list_get s j = Inr (int_elem (- 1), s\<lparr>allocs := al\<rparr>))"
proof -
  have rejected: "linked_list_get s i = Inr (int_elem (- 1), s) \<and>
      linked_list_remove s i = Inr (int_elem (- 1), s)"
    if small: "list_size s < 2 ^ 31"
      and adj: "list_inner_adjust_index i (to_size_t (int (list_size s) - 1)) = - 1"
  proof -
    from small have "int (list_size s) < 2 ^ 31" by simp
    then have "to_int (int (list_size s)) = int (list_size s)"
      by (simp add: to_int_small)
    with adj show ?thesis
      by (simp add: linked_list_get_def linked_list_remove_def linked_list_size_def)
  qed
  have current: "iterator_current s it = Inr (int_elem (- 1))"
    if "iterator_has_next s it = Inr False"
    using that by (simp add: iterator_current_def)
  have stored: "linked_list_get s j = Inr (int_elem (- 1), s\<lparr>allocs := al\<rparr>)"
    if "list_holds s xs" "list_size s = length xs" "length xs < 2 ^ 31"
      "0 \<le> j" "j < int (length xs)" "snd (xs ! nat j) = int_elem (- 1)"
      "allocs s = Some p # al" "heap s p = None"
    using get_in_range [OF that(1-5) that(7,8)] that(6) by simp
  from rejected bad_index_rejected [of "list_size s" i] current stored
  show ?thesis by blast
qed

lemma stored_minus_1_looks_like_no_value:
  "map_sum id fst (linked_list_get list_minus_1 0) = Inr (int_elem (- 1)) \<and>
   map_sum id fst (linked_list_get list_minus_1 1) = Inr (int_elem (- 1)) \<and>
   map_sum id fst (linked_list_remove list_minus_1 1) = Inr (int_elem (- 1)) \<and>
   iterator_current list_minus_1 \<lparr>iter_current = Some 1\<rparr> = Inr (int_elem (- 1))"
  by (simp add: list_minus_1_def eval_defs Let_def)

end
